theory Spec2Isabelle
  imports Main "HOL-Library.AList"
begin

section \<open>Python values and the operations the updater applies to them\<close>

text \<open>
  The OpenAPI document is a \<open>dict[str, Any]\<close>: a tree of JSON-like values. A dict is
  an association list in insertion order, looked up with \<open>map_of\<close> and assigned with
  \<open>AList.update\<close> (an existing key keeps its place, a new key goes to the end, as in
  Python). The values are trees: no dict object is reachable under two different keys.
\<close>

datatype pyval =
    PNone
  | PBool bool
  | PInt int
  | PStr string
  | PList "pyval list"
  | PDict "(string \<times> pyval) list"

text \<open>The exceptions, all subclasses of \<open>Exception\<close>, that the code can meet.\<close>

datatype exc = NameError | AttributeError | TypeError | KeyError | OtherException

text \<open>\<open>needle in haystack\<close> for two strings: a contiguous substring test.\<close>

fun is_substring :: "string \<Rightarrow> string \<Rightarrow> bool" where
  "is_substring k [] = (k = [])"
| "is_substring k (c # s) = (take (length k) (c # s) = k \<or> is_substring k s)"

text \<open>
  \<open>k in c\<close> for a string key \<open>k\<close>: key membership in a dict, element membership in a
  list, substring test in a string, and \<open>TypeError\<close> for \<open>None\<close>, booleans and integers
  (not iterable).
\<close>

definition py_contains :: "string \<Rightarrow> pyval \<Rightarrow> exc + bool" where
  "py_contains k c =
     (case c of
        PDict d \<Rightarrow> Inr (k \<in> set (map fst d))
      | PList xs \<Rightarrow> Inr (PStr k \<in> set xs)
      | PStr s \<Rightarrow> Inr (is_substring k s)
      | _ \<Rightarrow> Inl TypeError)"

text \<open>
  \<open>c[k]\<close> for a string key: \<open>KeyError\<close> on a dict without the key, \<open>TypeError\<close> on
  everything else (list and string indices must be integers, the rest is not
  subscriptable).
\<close>

definition py_getitem :: "pyval \<Rightarrow> string \<Rightarrow> exc + pyval" where
  "py_getitem c k =
     (case c of
        PDict d \<Rightarrow> (case map_of d k of None \<Rightarrow> Inl KeyError | Some v \<Rightarrow> Inr v)
      | _ \<Rightarrow> Inl TypeError)"

text \<open>\<open>c.get(k, dflt)\<close>: only a dict has the method; the rest raises \<open>AttributeError\<close>.\<close>

definition py_get :: "pyval \<Rightarrow> string \<Rightarrow> pyval \<Rightarrow> exc + pyval" where
  "py_get c k dflt =
     (case c of
        PDict d \<Rightarrow> Inr (case map_of d k of None \<Rightarrow> dflt | Some v \<Rightarrow> v)
      | _ \<Rightarrow> Inl AttributeError)"

text \<open>\<open>c[k] = v\<close> for a string key: item assignment on a dict, \<open>TypeError\<close> otherwise.\<close>

definition py_setitem :: "pyval \<Rightarrow> string \<Rightarrow> pyval \<Rightarrow> exc + pyval" where
  "py_setitem c k v =
     (case c of
        PDict d \<Rightarrow> Inr (PDict (AList.update k v d))
      | _ \<Rightarrow> Inl TypeError)"

text \<open>
  The document is mutated in place. In the tree model an object that was read from under
  key \<open>k\<close> of \<open>c\<close> and then mutated is put back under that key: \<open>store\<close> is this
  bookkeeping step, not a Python operation, and cannot fail.
\<close>

definition store :: "pyval \<Rightarrow> string \<Rightarrow> pyval \<Rightarrow> pyval" where
  "store c k v = (case c of PDict d \<Rightarrow> PDict (AList.update k v d) | _ \<Rightarrow> c)"

subsection \<open>Strings\<close>

text \<open>\<open>str.lower\<close> and \<open>str.upper\<close> on the ASCII letters (HTTP method names).\<close>

definition lower_char :: "char \<Rightarrow> char" where
  "lower_char c =
     (case map_of (zip ''ABCDEFGHIJKLMNOPQRSTUVWXYZ'' ''abcdefghijklmnopqrstuvwxyz'') c of
        None \<Rightarrow> c | Some d \<Rightarrow> d)"

definition upper_char :: "char \<Rightarrow> char" where
  "upper_char c =
     (case map_of (zip ''abcdefghijklmnopqrstuvwxyz'' ''ABCDEFGHIJKLMNOPQRSTUVWXYZ'') c of
        None \<Rightarrow> c | Some d \<Rightarrow> d)"

definition py_lower :: "string \<Rightarrow> string" where
  "py_lower s = map lower_char s"

definition py_upper :: "string \<Rightarrow> string" where
  "py_upper s = map upper_char s"

text \<open>\<open>str(n)\<close> for an integer: decimal digits, with a minus sign below zero.\<close>

fun str_nat :: "nat \<Rightarrow> string" where
  "str_nat n =
     (if n < 10 then [''0123456789'' ! n]
      else str_nat (n div 10) @ [''0123456789'' ! (n mod 10)])"

declare str_nat.simps [simp del]

definition py_str :: "int \<Rightarrow> string" where
  "py_str i = (if i < 0 then CHR ''-'' # str_nat (nat (- i)) else str_nat (nat i))"

subsection \<open>Log records\<close>

datatype level = DEBUG | ERROR

datatype logarg = LStr string | LExc exc

type_synonym log_record = "level \<times> string \<times> logarg list"

section \<open>Routes\<close>

text \<open>
  A record type (\<open>msgspec.Struct\<close> subclass); the updater reads only its \<open>__name__\<close>.
\<close>

datatype struct = Struct (struct_name: string)

text \<open>
  A handler, as far as the updater looks at it. \<open>ep_name\<close> is its \<open>__name__\<close>
  attribute, \<open>None\<close> when the callable has none (a \<open>functools.partial\<close> object, an
  instance of a class with \<open>__call__\<close>). \<open>ep_hints\<close> is the outcome of
  \<open>get_type_hints(endpoint, include_extras=True)\<close> followed by \<open>.get("return")\<close>:
  the exception raised, or the return annotation, \<open>None\<close> when there is none. An
  annotation that is present is a type object and is truthy.
\<close>

record 'ty endpoint =
  ep_name :: "string option"
  ep_hints :: "exc + 'ty option"

record 'ty api_route =
  endpoint :: "'ty endpoint option"
  path :: string
  methods :: "string list"
  status_code :: "int option"

text \<open>
  An entry of \<open>app.routes\<close>: an \<open>APIRoute\<close>, or a route of another kind (a mount, a
  websocket route). \<open>methods\<close> is a set in the source; the list is its iteration order.
\<close>

datatype 'ty route = APIRoute "'ty api_route" | OtherRoute

section \<open>The updater\<close>

text \<open>The dict literal of lines 55 to 62.\<close>

definition new_response :: "pyval \<Rightarrow> struct \<Rightarrow> pyval" where
  "new_response description struct =
     PDict [(''description'', description),
            (''content'', PDict [(''application/json'',
               PDict [(''schema'',
                 PDict [(''$ref'', PStr (''#/components/schemas/'' @ struct_name struct))])])])]"

text \<open>
  \<open>_update_method_response\<close> (the leading underscore is not an Isabelle name). Every
  raise happens before the assignment of line 55, so a raising call has not touched
  \<open>paths\<close>; a returning call gives the new \<open>paths\<close> and what it logged.
\<close>

definition update_method_response ::
  "string \<Rightarrow> string \<Rightarrow> struct \<Rightarrow> int \<Rightarrow> pyval \<Rightarrow> exc + (pyval \<times> log_record list)" where
  "update_method_response pth method struct code paths =
     (case py_getitem paths pth of Inl e \<Rightarrow> Inl e | Inr path_item \<Rightarrow>
      (case py_contains method path_item of Inl e \<Rightarrow> Inl e | Inr has_method \<Rightarrow>
       if \<not> has_method
       then Inr (paths, [(DEBUG, ''Method %s not in path %s'',
                          [LStr (py_upper method), LStr pth])])
       else
      (case py_getitem path_item method of Inl e \<Rightarrow> Inl e | Inr endpoint_schema \<Rightarrow>
      (case py_get endpoint_schema ''responses'' (PDict []) of Inl e \<Rightarrow> Inl e
       | Inr responses \<Rightarrow>
       let status_str = py_str code in
      (case py_contains status_str responses of Inl e \<Rightarrow> Inl e | Inr has_status \<Rightarrow>
       if \<not> has_status
       then Inr (paths, [(DEBUG, ''Status code %s not in responses for %s %s'',
                          [LStr status_str, LStr (py_upper method), LStr pth])])
       else
      (case py_getitem responses status_str of Inl e \<Rightarrow> Inl e | Inr old \<Rightarrow>
      (case py_get old ''description'' (PStr ''Successful Response'') of Inl e \<Rightarrow> Inl e
       | Inr description \<Rightarrow>
      (case py_getitem endpoint_schema ''responses'' of Inl e \<Rightarrow> Inl e | Inr target \<Rightarrow>
      (case py_setitem target status_str (new_response description struct) of
         Inl e \<Rightarrow> Inl e
       | Inr target' \<Rightarrow>
         Inr (store paths pth
                (store path_item method (store endpoint_schema ''responses'' target')),
              [(DEBUG, ''Updated %s %s response %s to reference %s'',
                [LStr (py_upper method), LStr pth, LStr status_str,
                 LStr (struct_name struct)])]))))))))))"

text \<open>
  The loop of lines 105 to 112 over \<open>route.methods\<close>. The result is the exception that
  left the loop, if any, with \<open>paths\<close> as the methods before it left them, and the log.
\<close>

fun update_route_methods ::
  "string \<Rightarrow> struct \<Rightarrow> int \<Rightarrow> string list \<Rightarrow> pyval \<Rightarrow> exc option \<times> pyval \<times> log_record list" where
  "update_route_methods pth struct code [] paths = (None, paths, [])"
| "update_route_methods pth struct code (method # ms) paths =
     (case update_method_response pth (py_lower method) struct code paths of
        Inl e \<Rightarrow> (Some e, paths, [])
      | Inr (paths', l) \<Rightarrow>
          (case update_route_methods pth struct code ms paths' of
             (r, paths'', l') \<Rightarrow> (r, paths'', l @ l')))"

text \<open>\<open>route.status_code or 200\<close>: \<open>None\<close> and \<open>0\<close> are the falsy values.\<close>

definition status_or_200 :: "int option \<Rightarrow> int" where
  "status_or_200 sc = (case sc of None \<Rightarrow> 200 | Some c \<Rightarrow> if c = 0 then 200 else c)"

text \<open>
  The body of the \<open>try\<close>, lines 89 to 112. \<open>extract_struct\<close> lives in the scanner
  module; it is a parameter here, from a type expression to a record type or nothing.
\<close>

definition try_route ::
  "('ty \<Rightarrow> struct option) \<Rightarrow> 'ty api_route \<Rightarrow> 'ty endpoint \<Rightarrow> pyval
   \<Rightarrow> exc option \<times> pyval \<times> log_record list" where
  "try_route extract_struct route ep paths =
     (case ep_hints ep of Inl e \<Rightarrow> (Some e, paths, [])
      | Inr return_type \<Rightarrow>
     (case return_type of None \<Rightarrow> (None, paths, [])
      | Some ty \<Rightarrow>
     (case extract_struct ty of None \<Rightarrow> (None, paths, [])
      | Some struct \<Rightarrow>
     (case py_contains (path route) paths of Inl e \<Rightarrow> (Some e, paths, [])
      | Inr has_path \<Rightarrow>
        if \<not> has_path
        then (None, paths, [(DEBUG, ''Path %s not in OpenAPI schema'', [LStr (path route)])])
        else update_route_methods (path route) struct (status_or_200 (status_code route))
               (methods route) paths))))"

text \<open>
  \<open>route.endpoint.__name__ if route.endpoint is not None else "unknown"\<close>, evaluated
  inside both handlers: the attribute access raises when the callable has no name.
\<close>

definition endpoint_name :: "'ty endpoint option \<Rightarrow> exc + string" where
  "endpoint_name epo =
     (case epo of
        None \<Rightarrow> Inr ''unknown''
      | Some ep \<Rightarrow> (case ep_name ep of None \<Rightarrow> Inl AttributeError | Some n \<Rightarrow> Inr n))"

text \<open>
  One iteration of the loop over \<open>app.routes\<close>, lines 85 to 127. \<open>Some e\<close> is an
  exception that leaves the iteration, and with it the function: one raised inside a
  handler.
\<close>

definition process_route ::
  "('ty \<Rightarrow> struct option) \<Rightarrow> 'ty route \<Rightarrow> pyval \<Rightarrow> exc option \<times> pyval \<times> log_record list" where
  "process_route extract_struct r paths =
     (case r of
        OtherRoute \<Rightarrow> (None, paths, [])
      | APIRoute route \<Rightarrow>
     (case endpoint route of None \<Rightarrow> (None, paths, [])
      | Some ep \<Rightarrow>
     (case try_route extract_struct route ep paths of
        (None, paths', l) \<Rightarrow> (None, paths', l)
      | (Some e, paths', l) \<Rightarrow>
          if e = NameError \<or> e = AttributeError
          then (case endpoint_name (endpoint route) of
                  Inl e' \<Rightarrow> (Some e', paths', l)
                | Inr n \<Rightarrow>
                    (None, paths',
                     l @ [(DEBUG, ''Cannot resolve type hints for %s: %s (skipping route)'',
                           [LStr n, LExc e])]))
          else (case endpoint_name (endpoint route) of
                  Inl e' \<Rightarrow> (Some e', paths', l)
                | Inr n \<Rightarrow>
                    (None, paths',
                     l @ [(ERROR, ''Failed to update response for %s: %s'',
                           [LStr n, LExc e])])))))"

fun route_loop ::
  "('ty \<Rightarrow> struct option) \<Rightarrow> 'ty route list \<Rightarrow> pyval \<Rightarrow> exc option \<times> pyval \<times> log_record list" where
  "route_loop extract_struct [] paths = (None, paths, [])"
| "route_loop extract_struct (r # rs) paths =
     (case process_route extract_struct r paths of
        (Some e, paths', l) \<Rightarrow> (Some e, paths', l)
      | (None, paths', l) \<Rightarrow>
          (case route_loop extract_struct rs paths' of
             (res, paths'', l') \<Rightarrow> (res, paths'', l @ l')))"

text \<open>
  \<open>update_route_responses(openapi_schema, app)\<close>, with \<open>app.routes\<close> for \<open>app\<close>.
  \<open>paths\<close> is the object under the key \<open>"paths"\<close>, or a fresh empty dict that is not
  part of the document. The result is the exception raised to the caller (\<open>None\<close> when the
  call returns), the document as the call leaves it, and the log.
\<close>

definition update_route_responses ::
  "('ty \<Rightarrow> struct option) \<Rightarrow> (string \<times> pyval) list \<Rightarrow> 'ty route list
   \<Rightarrow> exc option \<times> (string \<times> pyval) list \<times> log_record list" where
  "update_route_responses extract_struct openapi_schema routes =
     (let paths = (case map_of openapi_schema ''paths'' of None \<Rightarrow> PDict [] | Some v \<Rightarrow> v) in
      case route_loop extract_struct routes paths of
        (res, paths', l) \<Rightarrow>
          (res,
           (if ''paths'' \<in> set (map fst openapi_schema)
            then AList.update ''paths'' paths' openapi_schema
            else openapi_schema),
           l))"

section \<open>Notions for stating the properties\<close>

text \<open>
  \<open>upd_at k f c\<close> applies \<open>f\<close> to the value under key \<open>k\<close> of the dict \<open>c\<close>, and
  leaves \<open>c\<close> as it is when \<open>c\<close> is no dict or has no such key.
\<close>

definition upd_at :: "string \<Rightarrow> (pyval \<Rightarrow> pyval) \<Rightarrow> pyval \<Rightarrow> pyval" where
  "upd_at k f c =
     (case c of
        PDict d \<Rightarrow> (case map_of d k of None \<Rightarrow> c | Some v \<Rightarrow> PDict (AList.update k (f v) d))
      | _ \<Rightarrow> c)"

text \<open>What the assignment of line 55 does to a response entry that is a dict.\<close>

definition rewrite :: "struct \<Rightarrow> pyval \<Rightarrow> pyval" where
  "rewrite struct old =
     (case old of
        PDict e \<Rightarrow>
          new_response
            (case map_of e ''description'' of None \<Rightarrow> PStr ''Successful Response'' | Some v \<Rightarrow> v)
            struct
      | _ \<Rightarrow> old)"

text \<open>
  A write: path, lower-case method, status key and record type. \<open>write_at\<close> rewrites the
  entry \<open>paths[path][method]["responses"][status]\<close> when every dict and key on the way
  is there, and changes nothing otherwise.
\<close>

type_synonym wr = "string \<times> string \<times> string \<times> struct"

fun write_at :: "wr \<Rightarrow> pyval \<Rightarrow> pyval" where
  "write_at (pth, method, status, struct) =
     upd_at pth (upd_at method (upd_at ''responses'' (upd_at status (rewrite struct))))"

text \<open>Following a list of keys down through nested dicts.\<close>

fun lookup_path :: "pyval \<Rightarrow> string list \<Rightarrow> pyval option" where
  "lookup_path v [] = Some v"
| "lookup_path v (k # ks) =
     (case v of
        PDict d \<Rightarrow> (case map_of d k of None \<Rightarrow> None | Some x \<Rightarrow> lookup_path x ks)
      | _ \<Rightarrow> None)"

text \<open>
  Whether \<open>_update_method_response\<close> raises, read off the document level by level:
  the response entry, the responses mapping, the operation object, the path item, and
  \<open>paths\<close> itself. \<open>None\<close> means that the call returns.
\<close>

definition oc_entry :: "pyval \<Rightarrow> exc option" where
  "oc_entry old =
     (case py_get old ''description'' (PStr ''Successful Response'') of
        Inl e \<Rightarrow> Some e | Inr _ \<Rightarrow> None)"

definition oc_responses :: "string \<Rightarrow> pyval \<Rightarrow> exc option" where
  "oc_responses s rs =
     (case py_contains s rs of Inl e \<Rightarrow> Some e
      | Inr b \<Rightarrow>
          if b then (case py_getitem rs s of Inl e \<Rightarrow> Some e | Inr old \<Rightarrow> oc_entry old)
          else None)"

definition oc_op :: "string \<Rightarrow> pyval \<Rightarrow> exc option" where
  "oc_op s op =
     (case py_get op ''responses'' (PDict []) of Inl e \<Rightarrow> Some e
      | Inr rs \<Rightarrow> oc_responses s rs)"

definition oc_item :: "string \<Rightarrow> string \<Rightarrow> pyval \<Rightarrow> exc option" where
  "oc_item m s pi =
     (case py_contains m pi of Inl e \<Rightarrow> Some e
      | Inr b \<Rightarrow>
          if b then (case py_getitem pi m of Inl e \<Rightarrow> Some e | Inr op \<Rightarrow> oc_op s op)
          else None)"

definition oc_paths :: "string \<Rightarrow> string \<Rightarrow> string \<Rightarrow> pyval \<Rightarrow> exc option" where
  "oc_paths pth m s p =
     (case py_getitem p pth of Inl e \<Rightarrow> Some e | Inr pi \<Rightarrow> oc_item m s pi)"

text \<open>
  Two values of \<open>paths\<close> on which every membership test and every call of
  \<open>_update_method_response\<close> takes the same branch.
\<close>

definition same_flow :: "pyval \<Rightarrow> pyval \<Rightarrow> bool" where
  "same_flow p q =
     ((\<forall>pth m s. oc_paths pth m s q = oc_paths pth m s p) \<and>
      (\<forall>k. py_contains k q = py_contains k p))"

text \<open>The write that \<open>_update_method_response\<close> makes for one method of a route.\<close>

definition method_write :: "string \<Rightarrow> struct \<Rightarrow> int \<Rightarrow> string \<Rightarrow> wr" where
  "method_write pth st code m = (pth, py_lower m, py_str code, st)"

text \<open>
  \<open>acts_as f p t\<close>: on \<open>p\<close>, and on every document with the same flow as \<open>p\<close>, the
  step \<open>f\<close> ends the same way and leaves the document that the writes \<open>t\<close> give.
\<close>

definition acts_as ::
  "(pyval \<Rightarrow> exc option \<times> pyval \<times> log_record list) \<Rightarrow> pyval \<Rightarrow> wr list \<Rightarrow> bool" where
  "acts_as f p t =
     (\<forall>q. same_flow p q \<longrightarrow> fst (f q) = fst (f p) \<and> fst (snd (f q)) = fold write_at t q)"

section \<open>Basic facts\<close>

lemma py_str_200: "py_str 200 = ''200''"
  by code_simp

lemma py_getitem_Inr: "py_getitem c k = Inr v \<longleftrightarrow> (\<exists>d. c = PDict d \<and> map_of d k = Some v)"
  by (cases c) (auto simp: py_getitem_def split: option.splits)

lemma py_get_Inr:
  "py_get c k dflt = Inr v \<longleftrightarrow>
     (\<exists>d. c = PDict d \<and> v = (case map_of d k of None \<Rightarrow> dflt | Some x \<Rightarrow> x))"
  by (cases c) (auto simp: py_get_def)

lemma upd_at_absent: "py_contains k c = Inr False \<Longrightarrow> upd_at k f c = c"
  by (cases c) (force simp: py_contains_def upd_at_def dest: map_of_SomeD split: option.splits)+

lemma upd_at_present: "py_getitem c k = Inr v \<Longrightarrow> upd_at k f c = store c k (f v)"
  by (auto simp: py_getitem_Inr upd_at_def store_def)

lemma store_same: "py_getitem c k = Inr v \<Longrightarrow> store c k v = c"
  by (auto simp: py_getitem_Inr store_def AList.update_triv)

lemma umr_write_at:
  assumes "update_method_response pth m st code p = Inr (p', l)"
  shows "p' = write_at (pth, m, py_str code, st) p"
proof -
  from assms obtain pi where pi: "py_getitem p pth = Inr pi"
    by (auto simp: update_method_response_def split: sum.splits)
  from assms pi obtain b where b: "py_contains m pi = Inr b"
    by (auto simp: update_method_response_def split: sum.splits)
  show ?thesis
  proof (cases b)
    case False
    with assms pi b have "p' = p" by (simp add: update_method_response_def)
    moreover have "write_at (pth, m, py_str code, st) p = p"
      using pi b False by (simp add: upd_at_present upd_at_absent store_same)
    ultimately show ?thesis by simp
  next
    case True
    from assms pi b True obtain op where op: "py_getitem pi m = Inr op"
      by (auto simp: update_method_response_def split: sum.splits)
    from assms pi b True op obtain rs where rs: "py_get op ''responses'' (PDict []) = Inr rs"
      by (auto simp: update_method_response_def split: sum.splits)
    from assms pi b True op rs obtain b2 where b2: "py_contains (py_str code) rs = Inr b2"
      by (auto simp: update_method_response_def Let_def split: sum.splits)
    from rs obtain od where od: "op = PDict od"
      and rs_eq: "rs = (case map_of od ''responses'' of None \<Rightarrow> PDict [] | Some x \<Rightarrow> x)"
      by (auto simp: py_get_Inr)
    show ?thesis
    proof (cases b2)
      case False
      with assms pi b True op rs b2 have "p' = p" by (simp add: update_method_response_def)
      moreover have "upd_at ''responses'' (upd_at (py_str code) (rewrite st)) op = op"
      proof (cases "map_of od ''responses''")
        case None
        then show ?thesis by (simp add: od upd_at_def)
      next
        case (Some x)
        with rs_eq have "py_getitem op ''responses'' = Inr rs" by (simp add: od py_getitem_def)
        then show ?thesis using b2 False by (simp add: upd_at_present upd_at_absent store_same)
      qed
      ultimately show ?thesis
        using pi op by (simp add: upd_at_present store_same)
    next
      case True2: True
      from assms pi b True op rs b2 True2 obtain old where old: "py_getitem rs (py_str code) = Inr old"
        by (auto simp: update_method_response_def Let_def split: sum.splits)
      from assms pi b True op rs b2 True2 old obtain de
        where de: "py_get old ''description'' (PStr ''Successful Response'') = Inr de"
        by (auto simp: update_method_response_def Let_def split: sum.splits)
      from old rs_eq have tgt: "py_getitem op ''responses'' = Inr rs"
        by (auto simp: od py_getitem_def py_getitem_Inr split: option.splits)
      from old obtain rd where rd: "rs = PDict rd" by (auto simp: py_getitem_Inr)
      have p': "p' = store p pth (store pi m (store op ''responses''
                 (PDict (AList.update (py_str code) (new_response de st) rd))))"
        using assms pi b True op rs b2 True2 old de tgt
        by (simp add: update_method_response_def Let_def rd py_setitem_def)
      from de have "rewrite st old = new_response de st"
        by (auto simp: py_get_Inr rewrite_def)
      then show ?thesis
        using pi op tgt old p' by (simp add: upd_at_present rd store_def)
    qed
  qed
qed


lemma lookup_path_Cons_Some:
  "lookup_path v (k # ks) = Some x \<longleftrightarrow>
     (\<exists>d y. v = PDict d \<and> map_of d k = Some y \<and> lookup_path y ks = Some x)"
  by (cases v) (auto split: option.splits)

lemma lookup_upd_at:
  "lookup_path (upd_at k f c) (k' # ks) =
     (if k' = k
      then (case lookup_path c [k] of None \<Rightarrow> None | Some x \<Rightarrow> lookup_path (f x) ks)
      else lookup_path c (k' # ks))"
  by (cases c) (auto simp: upd_at_def AList.update_conv' split: option.splits)

lemma umr_succeeds:
  assumes "lookup_path paths [pth, m, ''responses'', py_str code] = Some (PDict e)"
  shows "\<exists>paths' l. update_method_response pth m st code paths = Inr (paths', l)"
proof -
  from assms obtain d pi where d: "paths = PDict d" "map_of d pth = Some pi"
    and 1: "lookup_path pi [m, ''responses'', py_str code] = Some (PDict e)"
    by (auto simp: lookup_path_Cons_Some simp del: lookup_path.simps(2))
  from 1 obtain pd op where pd: "pi = PDict pd" "map_of pd m = Some op"
    and 2: "lookup_path op [''responses'', py_str code] = Some (PDict e)"
    by (auto simp: lookup_path_Cons_Some simp del: lookup_path.simps(2))
  from 2 obtain od rs where od: "op = PDict od" "map_of od ''responses'' = Some rs"
    and 3: "lookup_path rs [py_str code] = Some (PDict e)"
    by (auto simp: lookup_path_Cons_Some simp del: lookup_path.simps(2))
  from 3 obtain rd where rd: "rs = PDict rd" "map_of rd (py_str code) = Some (PDict e)"
    by (auto simp: lookup_path_Cons_Some simp del: lookup_path.simps(2))
  have m: "m \<in> fst ` set pd" using pd(2) by (force dest: map_of_SomeD)
  have s: "py_str code \<in> fst ` set rd" using rd(2) by (force dest: map_of_SomeD)
  show ?thesis
    using m s by (simp add: update_method_response_def d pd od rd py_getitem_def py_contains_def
        py_get_def py_setitem_def Let_def)
qed

lemma umr_raises:
  "(update_method_response pth m st code p = Inl e) = (oc_paths pth m (py_str code) p = Some e)"
proof (cases "py_getitem p pth")
  case (Inl a)
  then show ?thesis by (simp add: update_method_response_def oc_paths_def)
next
  case pi: (Inr pi)
  show ?thesis
  proof (cases "py_contains m pi")
    case (Inl a)
    with pi show ?thesis by (simp add: update_method_response_def oc_paths_def oc_item_def)
  next
    case b: (Inr b)
    show ?thesis
    proof (cases b)
      case False
      with pi b show ?thesis by (simp add: update_method_response_def oc_paths_def oc_item_def)
    next
      case True
      show ?thesis
      proof (cases "py_getitem pi m")
        case (Inl a)
        with pi b True show ?thesis
          by (simp add: update_method_response_def oc_paths_def oc_item_def)
      next
        case op: (Inr op)
        show ?thesis
        proof (cases "py_get op ''responses'' (PDict [])")
          case (Inl a)
          with pi b True op show ?thesis
            by (simp add: update_method_response_def oc_paths_def oc_item_def oc_op_def)
        next
          case rs: (Inr rs)
          then obtain od where od: "op = PDict od"
            and rs_eq: "rs = (case map_of od ''responses'' of None \<Rightarrow> PDict [] | Some x \<Rightarrow> x)"
            by (auto simp: py_get_Inr)
          show ?thesis
          proof (cases "py_contains (py_str code) rs")
            case (Inl a)
            with pi b True op rs show ?thesis
              by (simp add: update_method_response_def oc_paths_def oc_item_def oc_op_def
                  oc_responses_def)
          next
            case b2: (Inr b2)
            show ?thesis
            proof (cases b2)
              case False
              with pi b True op rs b2 show ?thesis
                by (simp add: update_method_response_def oc_paths_def oc_item_def oc_op_def
                    oc_responses_def)
            next
              case T2: True
              show ?thesis
              proof (cases "py_getitem rs (py_str code)")
                case (Inl a)
                with pi b True op rs b2 T2 show ?thesis
                  by (simp add: update_method_response_def oc_paths_def oc_item_def oc_op_def
                      oc_responses_def)
              next
                case old: (Inr old)
                then obtain rd where rd: "rs = PDict rd" by (auto simp: py_getitem_Inr)
                from old rs_eq have tgt: "py_getitem op ''responses'' = Inr rs"
                  by (auto simp: od py_getitem_def py_getitem_Inr split: option.splits)
                show ?thesis
                proof (cases "py_get old ''description'' (PStr ''Successful Response'')")
                  case (Inl a)
                  with pi b True op rs b2 T2 old show ?thesis
                    by (simp add: update_method_response_def oc_paths_def oc_item_def oc_op_def
                      oc_responses_def oc_entry_def)
                next
                  case (Inr de)
                  with pi b True op rs b2 T2 old tgt show ?thesis
                    by (simp add: update_method_response_def oc_paths_def oc_item_def oc_op_def
                      oc_responses_def oc_entry_def rd py_setitem_def Let_def)
                qed
              qed
            qed
          qed
        qed
      qed
    qed
  qed
qed

lemma umr_cases:
  "update_method_response pth m st code p =
     (case oc_paths pth m (py_str code) p of
        Some e \<Rightarrow> Inl e
      | None \<Rightarrow> Inr (write_at (pth, m, py_str code, st) p,
                     snd (projr (update_method_response pth m st code p))))"
proof (cases "update_method_response pth m st code p")
  case (Inl e)
  then show ?thesis using umr_raises [of pth m st code p e] by simp
next
  case (Inr r)
  obtain p' l where r: "r = (p', l)" by (cases r)
  have "oc_paths pth m (py_str code) p = None"
  proof (cases "oc_paths pth m (py_str code) p")
    case (Some e)
    then show ?thesis using umr_raises [of pth m st code p e] Inr by simp
  qed simp
  then show ?thesis using Inr r umr_write_at [of pth m st code p p' l] by simp
qed

subsection \<open>Updates under a key\<close>

lemma py_contains_upd_at [simp]: "py_contains k (upd_at k' f c) = py_contains k c"
  by (cases c) (force simp: py_contains_def upd_at_def AList.dom_update dest: map_of_SomeD
      split: option.splits)+

lemma py_getitem_upd_at:
  "py_getitem (upd_at k' f c) k =
     (case py_getitem c k of Inl e \<Rightarrow> Inl e | Inr v \<Rightarrow> Inr (if k = k' then f v else v))"
  by (cases c) (auto simp: py_getitem_def upd_at_def AList.update_conv' split: option.splits)

lemma py_get_upd_at:
  "f dflt = dflt \<Longrightarrow>
   py_get (upd_at k' f c) k dflt =
     (case py_get c k dflt of Inl e \<Rightarrow> Inl e | Inr v \<Rightarrow> Inr (if k = k' then f v else v))"
  by (cases c) (auto simp: py_get_def upd_at_def AList.update_conv' split: option.splits)

lemma upd_at_empty [simp]: "upd_at k f (PDict []) = PDict []"
  by (simp add: upd_at_def)

lemma oc_entry_rewrite [simp]: "oc_entry (rewrite st e) = oc_entry e"
  by (cases e) (auto simp: oc_entry_def rewrite_def py_get_def new_response_def)

lemma oc_responses_upd_at:
  "(\<And>e. oc_entry (f e) = oc_entry e) \<Longrightarrow> oc_responses s (upd_at k f rs) = oc_responses s rs"
  by (auto simp: oc_responses_def py_getitem_upd_at split: sum.splits)

lemma oc_op_upd_at:
  "(\<And>rs. oc_responses s (f rs) = oc_responses s rs) \<Longrightarrow> f (PDict []) = PDict [] \<Longrightarrow>
   oc_op s (upd_at k f op) = oc_op s op"
  by (auto simp: oc_op_def py_get_upd_at split: sum.splits)

lemma oc_item_upd_at:
  "(\<And>op. oc_op s (f op) = oc_op s op) \<Longrightarrow> oc_item m s (upd_at k f pi) = oc_item m s pi"
  by (auto simp: oc_item_def py_getitem_upd_at split: sum.splits)

lemma oc_paths_upd_at:
  "(\<And>pi. oc_item m s (f pi) = oc_item m s pi) \<Longrightarrow>
   oc_paths pth m s (upd_at k f p) = oc_paths pth m s p"
  by (auto simp: oc_paths_def py_getitem_upd_at split: sum.splits)

lemma oc_paths_write_at [simp]: "oc_paths pth m s (write_at a p) = oc_paths pth m s p"
proof -
  obtain pb mb sb nb where a: "a = (pb, mb, sb, nb)" by (cases a)
  show ?thesis
    unfolding a write_at.simps
    by (intro oc_paths_upd_at oc_item_upd_at oc_op_upd_at oc_responses_upd_at oc_entry_rewrite
        upd_at_empty)
qed

lemma py_contains_write_at [simp]: "py_contains k (write_at a p) = py_contains k p"
  by (cases a) simp

subsection \<open>Writes absorb and commute\<close>

lemma update_update_swap:
  "k \<noteq> k' \<Longrightarrow> map_of al k = Some x \<Longrightarrow>
   AList.update k v (AList.update k' v' al) = AList.update k' v' (AList.update k v al)"
  by (induction al) (auto split: if_splits)

lemma upd_at_upd_at_same: "upd_at k f (upd_at k g c) = upd_at k (\<lambda>x. f (g x)) c"
  by (cases c) (auto simp: upd_at_def AList.update_conv' split: option.splits)

lemma upd_at_commute:
  assumes "k \<noteq> k'"
  shows "upd_at k f (upd_at k' g c) = upd_at k' g (upd_at k f c)"
proof (cases c)
  case (PDict d)
  show ?thesis
  proof (cases "map_of d k")
    case None
    with assms show ?thesis
      by (auto simp: PDict upd_at_def AList.update_conv' split: option.splits)
  next
    case (Some x)
    with assms show ?thesis
      by (auto simp: PDict upd_at_def AList.update_conv' intro: update_update_swap
          split: option.splits)
  qed
qed (simp_all add: upd_at_def)

lemma rewrite_rewrite [simp]: "rewrite st (rewrite st' e) = rewrite st e"
  by (cases e) (auto simp: rewrite_def new_response_def)

lemma write_at_same_loc:
  "write_at (pth, m, s, st) (write_at (pth, m, s, st') p) = write_at (pth, m, s, st) p"
  by (simp add: upd_at_upd_at_same)

lemma write_at_commute:
  assumes "(pth, m, s) \<noteq> (pth', m', s')"
  shows "write_at (pth, m, s, st) (write_at (pth', m', s', st') p) =
         write_at (pth', m', s', st') (write_at (pth, m, s, st) p)"
proof (cases "pth = pth'")
  case False
  then show ?thesis by (simp add: upd_at_commute)
next
  case pth: True
  show ?thesis
  proof (cases "m = m'")
    case False
    then show ?thesis by (simp add: pth upd_at_upd_at_same upd_at_commute)
  next
    case True
    with pth assms have "s \<noteq> s'" by simp
    then show ?thesis by (simp add: pth True upd_at_upd_at_same upd_at_commute)
  qed
qed

lemma write_at_absorb:
  "write_at a (fold write_at t (write_at a p)) = write_at a (fold write_at t p)"
proof (induction t rule: rev_induct)
  case Nil
  obtain pth m s st where a: "a = (pth, m, s, st)" by (cases a)
  show ?case by (simp add: a upd_at_upd_at_same)
next
  case (snoc b t)
  obtain pth m s st where a: "a = (pth, m, s, st)" by (cases a)
  obtain pth' m' s' st' where b: "b = (pth', m', s', st')" by (cases b)
  show ?case
  proof (cases "(pth, m, s) = (pth', m', s')")
    case True
    then have "\<And>x. write_at a (write_at b x) = write_at a x"
      unfolding a b using write_at_same_loc by simp
    with snoc show ?thesis by simp
  next
    case False
    then have "\<And>x. write_at a (write_at b x) = write_at b (write_at a x)"
      unfolding a b by (rule write_at_commute)
    with snoc show ?thesis by simp
  qed
qed

lemma fold_write_at_absorb:
  "fold write_at s (fold write_at t (fold write_at s p)) = fold write_at s (fold write_at t p)"
proof (induction s arbitrary: t p)
  case Nil
  show ?case by simp
next
  case (Cons a s)
  have "fold write_at (a # s) (fold write_at t (fold write_at (a # s) p)) =
        fold write_at s (fold write_at (t @ [a]) (fold write_at s (write_at a p)))"
    by simp
  also have "\<dots> = fold write_at s (fold write_at (t @ [a]) (write_at a p))"
    by (rule Cons.IH)
  also have "\<dots> = fold write_at s (write_at a (fold write_at t (write_at a p)))"
    by simp
  also have "\<dots> = fold write_at s (write_at a (fold write_at t p))"
    by (simp only: write_at_absorb)
  finally show ?case by simp
qed

lemma fold_write_at_idem: "fold write_at s (fold write_at s p) = fold write_at s p"
  using fold_write_at_absorb [of s "[]" p] by simp

lemma oc_paths_fold_write_at [simp]:
  "oc_paths pth m s (fold write_at t p) = oc_paths pth m s p"
  by (induction t arbitrary: p) simp_all

lemma py_contains_fold_write_at [simp]:
  "py_contains k (fold write_at t p) = py_contains k p"
  by (induction t arbitrary: p) simp_all

subsection \<open>The loops as sequences of writes\<close>

lemma same_flow_refl [simp]: "same_flow p p"
  by (simp add: same_flow_def)

lemma same_flow_fold [simp]: "same_flow p (fold write_at t p)"
  by (simp add: same_flow_def)

lemma same_flow_write_at: "same_flow p q \<Longrightarrow> same_flow (write_at a p) (write_at a q)"
  by (simp add: same_flow_def)

lemma same_flow_oc: "same_flow p q \<Longrightarrow> oc_paths pth m s q = oc_paths pth m s p"
  by (simp add: same_flow_def)

lemma same_flow_contains: "same_flow p q \<Longrightarrow> py_contains k q = py_contains k p"
  by (simp add: same_flow_def)

lemma urm_Cons:
  "update_route_methods pth st code (m # ms) p =
     (case oc_paths pth (py_lower m) (py_str code) p of
        Some e \<Rightarrow> (Some e, p, [])
      | None \<Rightarrow>
          (case update_route_methods pth st code ms (write_at (method_write pth st code m) p) of
             (r, p', l') \<Rightarrow>
               (r, p', snd (projr (update_method_response pth (py_lower m) st code p)) @ l')))"
proof (cases "oc_paths pth (py_lower m) (py_str code) p")
  case (Some e)
  then have "update_method_response pth (py_lower m) st code p = Inl e"
    by (simp add: umr_raises)
  with Some show ?thesis by simp
next
  case None
  have "\<exists>r. update_method_response pth (py_lower m) st code p = Inr r"
  proof (cases "update_method_response pth (py_lower m) st code p")
    case (Inl e)
    then show ?thesis using None by (simp add: umr_raises)
  qed simp
  then obtain p' l where r: "update_method_response pth (py_lower m) st code p = Inr (p', l)"
    by auto
  then have "p' = write_at (method_write pth st code m) p"
    unfolding method_write_def by (rule umr_write_at)
  with None r show ?thesis by simp
qed

declare update_route_methods.simps(2) [simp del]

lemma urm_writes:
  "\<exists>n. n \<le> length ms \<and>
     (\<forall>q. same_flow p q \<longrightarrow>
        fst (update_route_methods pth st code ms q) = fst (update_route_methods pth st code ms p) \<and>
        fst (snd (update_route_methods pth st code ms q)) =
          fold write_at (map (method_write pth st code) (take n ms)) q) \<and>
     (fst (update_route_methods pth st code ms p) = None \<longrightarrow> n = length ms)"
  (is "\<exists>n. ?P n ms p")
proof (induction ms arbitrary: p)
  case Nil
  show ?case by simp
next
  case (Cons m ms)
  show ?case
  proof (cases "oc_paths pth (py_lower m) (py_str code) p")
    case (Some e)
    have b: "\<forall>q. same_flow p q \<longrightarrow>
        fst (update_route_methods pth st code (m # ms) q) =
          fst (update_route_methods pth st code (m # ms) p) \<and>
        fst (snd (update_route_methods pth st code (m # ms) q)) =
          fold write_at (map (method_write pth st code) (take 0 (m # ms))) q"
    proof (intro allI impI)
      fix q assume "same_flow p q"
      then have "oc_paths pth (py_lower m) (py_str code) q = Some e"
        using Some by (simp only: same_flow_oc)
      with Some show "fst (update_route_methods pth st code (m # ms) q) =
          fst (update_route_methods pth st code (m # ms) p) \<and>
        fst (snd (update_route_methods pth st code (m # ms) q)) =
          fold write_at (map (method_write pth st code) (take 0 (m # ms))) q"
        by (simp add: urm_Cons)
    qed
    have c: "fst (update_route_methods pth st code (m # ms) p) = None \<longrightarrow> 0 = length (m # ms)"
      using Some by (simp add: urm_Cons)
    have a: "0 \<le> length (m # ms)" by simp
    show ?thesis by (rule exI [of _ 0], rule conjI [OF a conjI [OF b c]])
  next
    case None
    let ?w = "method_write pth st code m"
    from Cons.IH [of "write_at ?w p"] obtain n where A: "?P n ms (write_at ?w p)" ..
    from A have n: "n \<le> length ms" by (rule conjunct1)
    from A have u: "\<forall>q. same_flow (write_at ?w p) q \<longrightarrow>
        fst (update_route_methods pth st code ms q) =
          fst (update_route_methods pth st code ms (write_at ?w p)) \<and>
        fst (snd (update_route_methods pth st code ms q)) =
          fold write_at (map (method_write pth st code) (take n ms)) q"
      by (rule conjunct1 [OF conjunct2])
    from A have d: "fst (update_route_methods pth st code ms (write_at ?w p)) = None \<longrightarrow>
        n = length ms"
      by (rule conjunct2 [OF conjunct2])
    have b: "\<forall>q. same_flow p q \<longrightarrow>
        fst (update_route_methods pth st code (m # ms) q) =
          fst (update_route_methods pth st code (m # ms) p) \<and>
        fst (snd (update_route_methods pth st code (m # ms) q)) =
          fold write_at (map (method_write pth st code) (take (Suc n) (m # ms))) q"
    proof (intro allI impI)
      fix q assume q: "same_flow p q"
      then have oq: "oc_paths pth (py_lower m) (py_str code) q = None"
        using None by (simp only: same_flow_oc)
      from q have "same_flow (write_at ?w p) (write_at ?w q)" by (rule same_flow_write_at)
      with u have
        "fst (update_route_methods pth st code ms (write_at ?w q)) =
          fst (update_route_methods pth st code ms (write_at ?w p))"
        "fst (snd (update_route_methods pth st code ms (write_at ?w q))) =
          fold write_at (map (method_write pth st code) (take n ms)) (write_at ?w q)"
        by blast+
      then show "fst (update_route_methods pth st code (m # ms) q) =
          fst (update_route_methods pth st code (m # ms) p) \<and>
        fst (snd (update_route_methods pth st code (m # ms) q)) =
          fold write_at (map (method_write pth st code) (take (Suc n) (m # ms))) q"
        using None oq by (simp add: urm_Cons case_prod_beta)
    qed
    have c: "fst (update_route_methods pth st code (m # ms) p) = None \<longrightarrow>
        Suc n = length (m # ms)"
      using None d by (simp add: urm_Cons case_prod_beta)
    have a: "Suc n \<le> length (m # ms)" using n by simp
    show ?thesis by (rule exI [of _ "Suc n"], rule conjI [OF a conjI [OF b c]])
  qed
qed

lemma acts_asD:
  assumes "acts_as f p t" and "same_flow p q"
  shows "fst (f q) = fst (f p) \<and> fst (snd (f q)) = fold write_at t q"
proof -
  from assms(1)
  have "same_flow p q \<longrightarrow> fst (f q) = fst (f p) \<and> fst (snd (f q)) = fold write_at t q"
    unfolding acts_as_def by (rule spec)
  from this assms(2) show ?thesis by (rule mp)
qed

lemma acts_as_self: "acts_as f p t \<Longrightarrow> fst (snd (f p)) = fold write_at t p"
  by (rule conjunct2 [OF acts_asD [OF _ same_flow_refl]])

lemma acts_as_const: "(\<And>q. f q = (r, q, l)) \<Longrightarrow> acts_as f p []"
  by (simp add: acts_as_def)

lemma same_flow_trans: "same_flow p q \<Longrightarrow> same_flow q r \<Longrightarrow> same_flow p r"
  by (simp add: same_flow_def)

lemma same_flow_sym: "same_flow p q \<Longrightarrow> same_flow q p"
  by (simp add: same_flow_def)

lemma same_flow_fold_both:
  "same_flow p q \<Longrightarrow> same_flow (fold write_at t p) (fold write_at t q)"
  by (simp add: same_flow_def)

lemma urm_acts_as:
  "\<exists>n. n \<le> length ms \<and>
     acts_as (update_route_methods pth st code ms) p
       (map (method_write pth st code) (take n ms)) \<and>
     (fst (update_route_methods pth st code ms p) = None \<longrightarrow> n = length ms)"
  unfolding acts_as_def by (rule urm_writes)

lemma try_route_resolved:
  "ep_hints ep = Inr (Some ty) \<Longrightarrow> extract_struct ty = Some st \<Longrightarrow>
   py_contains (path route) p = Inr True \<Longrightarrow>
   try_route extract_struct route ep p =
     update_route_methods (path route) st (status_or_200 (status_code route)) (methods route) p"
  by (simp add: try_route_def)

lemma try_route_acts_as: "\<exists>t. acts_as (try_route extract_struct route ep) p t"
proof (cases "ep_hints ep")
  case (Inl e)
  then have "\<And>q. try_route extract_struct route ep q = (Some e, q, [])"
    by (simp add: try_route_def)
  then have "acts_as (try_route extract_struct route ep) p []" by (rule acts_as_const)
  then show ?thesis ..
next
  case (Inr rt)
  show ?thesis
  proof (cases rt)
    case None
    with Inr have "\<And>q. try_route extract_struct route ep q = (None, q, [])"
      by (simp add: try_route_def)
    then have "acts_as (try_route extract_struct route ep) p []" by (rule acts_as_const)
    then show ?thesis ..
  next
    case (Some ty)
    show ?thesis
    proof (cases "extract_struct ty")
      case None
      with Inr Some have "\<And>q. try_route extract_struct route ep q = (None, q, [])"
        by (simp add: try_route_def)
      then have "acts_as (try_route extract_struct route ep) p []" by (rule acts_as_const)
    then show ?thesis ..
    next
      case st: (Some st)
      show ?thesis
      proof (cases "py_contains (path route) p")
        case (Inl e)
        have "acts_as (try_route extract_struct route ep) p []"
          unfolding acts_as_def
        proof (intro allI impI)
          fix q assume "same_flow p q"
          then have "py_contains (path route) q = Inl e"
            using Inl by (simp only: same_flow_contains)
          with Inl Inr Some st show "fst (try_route extract_struct route ep q) =
              fst (try_route extract_struct route ep p) \<and>
              fst (snd (try_route extract_struct route ep q)) = fold write_at [] q"
            by (simp add: try_route_def)
        qed
        then show ?thesis ..
      next
        case b: (Inr b)
        show ?thesis
        proof (cases b)
          case False
          have "acts_as (try_route extract_struct route ep) p []"
            unfolding acts_as_def
          proof (intro allI impI)
            fix q assume "same_flow p q"
            then have "py_contains (path route) q = Inr False"
              using b False by (simp only: same_flow_contains)
            with b False Inr Some st show "fst (try_route extract_struct route ep q) =
                fst (try_route extract_struct route ep p) \<and>
                fst (snd (try_route extract_struct route ep q)) = fold write_at [] q"
              by (simp add: try_route_def)
          qed
          then show ?thesis ..
        next
          case True
          let ?code = "status_or_200 (status_code route)"
          from urm_acts_as [of "methods route" "path route" st ?code p]
          obtain n where "n \<le> length (methods route) \<and>
              acts_as (update_route_methods (path route) st ?code (methods route)) p
                (map (method_write (path route) st ?code) (take n (methods route))) \<and>
              (fst (update_route_methods (path route) st ?code (methods route) p) = None \<longrightarrow>
                 n = length (methods route))" ..
          then have n: "acts_as (update_route_methods (path route) st ?code (methods route)) p
              (map (method_write (path route) st ?code) (take n (methods route)))"
            by (rule conjunct1 [OF conjunct2])
          have "acts_as (try_route extract_struct route ep) p
              (map (method_write (path route) st ?code) (take n (methods route)))"
            unfolding acts_as_def
          proof (intro allI impI)
            fix q assume q: "same_flow p q"
            then have "py_contains (path route) q = Inr True"
              using b True by (simp only: same_flow_contains)
            then have "try_route extract_struct route ep q =
                update_route_methods (path route) st ?code (methods route) q"
              using Inr Some st by (simp add: try_route_resolved)
            moreover have "try_route extract_struct route ep p =
                update_route_methods (path route) st ?code (methods route) p"
              using Inr Some st b True by (simp add: try_route_resolved)
            ultimately show "fst (try_route extract_struct route ep q) =
                fst (try_route extract_struct route ep p) \<and>
                fst (snd (try_route extract_struct route ep q)) =
                fold write_at (map (method_write (path route) st ?code) (take n (methods route))) q"
              using acts_asD [OF n q] by simp
          qed
          then show ?thesis ..
        qed
      qed
    qed
  qed
qed

section \<open>The claims\<close>

text \<open>
  C5. When \<open>_update_method_response\<close> finds the entry for (path, method, status) in
  the document, it returns normally and the entry it leaves there has the old entry's
  \<open>description\<close> when the old entry had one and \<open>"Successful Response"\<close> otherwise, and
  as \<open>content\<close> the single media type \<open>application/json\<close> whose schema is the
  \<open>$ref\<close> \<open>#/components/schemas/\<close> followed by the record type's name.
\<close>

theorem C5_overwrite:
  assumes "lookup_path paths [pth, m, ''responses'', py_str code] = Some (PDict e)"
  shows "\<exists>paths' l.
           update_method_response pth m st code paths = Inr (paths', l) \<and>
           lookup_path paths' [pth, m, ''responses'', py_str code] =
             Some (PDict
               [(''description'',
                  (case map_of e ''description'' of
                     None \<Rightarrow> PStr ''Successful Response'' | Some d \<Rightarrow> d)),
                (''content'', PDict [(''application/json'',
                   PDict [(''schema'',
                     PDict [(''$ref'',
                       PStr (''#/components/schemas/'' @ struct_name st))])])])])"
proof -
  from umr_succeeds [OF assms] obtain paths' l
    where r: "update_method_response pth m st code paths = Inr (paths', l)" by blast
  then have "paths' = write_at (pth, m, py_str code, st) paths" by (rule umr_write_at)
  moreover from assms obtain x1 x2 x3 where
    "lookup_path paths [pth] = Some x1" "lookup_path x1 [m] = Some x2"
    "lookup_path x2 [''responses''] = Some x3" "lookup_path x3 [py_str code] = Some (PDict e)"
    by (fastforce simp: lookup_path_Cons_Some simp del: lookup_path.simps(2))
  ultimately have "lookup_path paths' [pth, m, ''responses'', py_str code] =
      Some (rewrite st (PDict e))"
    by (simp add: lookup_upd_at del: lookup_path.simps(2))
  with r show ?thesis by (simp add: rewrite_def new_response_def)
qed

theorem C5_overwrite_witness:
  "\<exists>paths' l.
     update_method_response ''/items'' ''get'' (Struct ''ItemOut'') 200
       (PDict [(''/items'', PDict [(''get'', PDict [(''responses'',
          PDict [(''200'', PDict [(''description'', PStr ''OK'')])])])])]) = Inr (paths', l) \<and>
     lookup_path paths' [''/items'', ''get'', ''responses'', ''200''] =
       Some (PDict
         [(''description'', PStr ''OK''),
          (''content'', PDict [(''application/json'',
             PDict [(''schema'',
               PDict [(''$ref'', PStr ''#/components/schemas/ItemOut'')])])])])"
proof -
  have h: "lookup_path
      (PDict [(''/items'', PDict [(''get'', PDict [(''responses'',
          PDict [(''200'', PDict [(''description'', PStr ''OK'')])])])])])
      [''/items'', ''get'', ''responses'', py_str 200] = Some (PDict [(''description'', PStr ''OK'')])"
    by (simp add: py_str_200)
  from C5_overwrite [OF h, of "Struct ''ItemOut''"] show ?thesis
    by (simp add: py_str_200)
qed

end
